theory Spec2Isabelle
  imports Main "HOL-Library.Char_ord" "HOL-Library.List_Lexorder" "HOL-Library.Multiset"
begin

section \<open>Tables\<close>

text \<open>
  The two notebooks run Spark SQL over two tables. A table is a list of rows; the
  columns a query reads are the fields of a record. Identifiers are strings (compared
  byte-wise, as Spark does), instants are integers on one time axis, and every column
  is taken to be non-null.
\<close>

record decision =
  visitor_id :: string
  experiment_id :: string
  variation_id :: string
  timestamp :: int
  is_holdback :: bool
  process_timestamp :: int

text \<open>An element of the \<open>experiments\<close> array of an event (\<open>exp.experiment_id\<close>, \<open>exp.variation_id\<close>).\<close>

record exp =
  experiment_id :: string
  variation_id :: string

record event =
  visitor_id :: string
  event_name :: string
  timestamp :: int
  experiments :: "exp list"

text \<open>A row of the \<open>experiment_subjects\<close> view.\<close>

record subject =
  visitor_id :: string
  experiment_id :: string
  variation_id :: string
  timestamp :: int

text \<open>The temporary views \<open>decisions\<close> and \<open>events\<close> of the Spark session of the query notebook.\<close>

record database =
  decisions :: "decision list"
  events :: "event list"

section \<open>SQL operators\<close>

text \<open>\<open>t BETWEEN lo AND hi\<close> is \<open>lo <= t AND t <= hi\<close>.\<close>

definition between :: "int \<Rightarrow> int \<Rightarrow> int \<Rightarrow> bool" where
  "between t lo hi \<longleftrightarrow> lo \<le> t \<and> t \<le> hi"

text \<open>\<open>WHERE f BETWEEN start AND end\<close> over a table, for the column \<open>f\<close>.\<close>

definition window_filter :: "('r \<Rightarrow> int) \<Rightarrow> int \<Rightarrow> int \<Rightarrow> 'r list \<Rightarrow> 'r list" where
  "window_filter f start end rows = [r \<leftarrow> rows. between (f r) start end]"

text \<open>
  \<open>GROUP BY key\<close> with one aggregate: one output row for each key value that occurs,
  holding the aggregate of the rows of that group.
\<close>

definition group_by :: "('r \<Rightarrow> 'k) \<Rightarrow> ('r list \<Rightarrow> 'v) \<Rightarrow> 'r list \<Rightarrow> ('k \<times> 'v) list" where
  "group_by key agg rows = map (\<lambda>k. (k, agg [r \<leftarrow> rows. key r = k])) (remdups (map key rows))"

text \<open>\<open>COUNT(1)\<close>, \<open>COUNT(DISTINCT f)\<close> and \<open>MIN(f)\<close>; the minimum of no rows is NULL.\<close>

definition count_rows :: "'r list \<Rightarrow> nat" where
  "count_rows rows = length rows"

definition count_distinct :: "('r \<Rightarrow> 'a) \<Rightarrow> 'r list \<Rightarrow> nat" where
  "count_distinct f rows = length (remdups (map f rows))"

definition sql_min :: "('r \<Rightarrow> int) \<Rightarrow> 'r list \<Rightarrow> int option" where
  "sql_min f rows = (case map f rows of [] \<Rightarrow> None | t # ts \<Rightarrow> Some (fold min ts t))"

text \<open>\<open>t >= m\<close> where \<open>m\<close> may be NULL: a comparison with NULL does not hold.\<close>

fun ge_nullable :: "int \<Rightarrow> int option \<Rightarrow> bool" where
  "ge_nullable t None = False"
| "ge_nullable t (Some m) = (m \<le> t)"

text \<open>\<open>UNION\<close> (not \<open>UNION ALL\<close>) removes duplicate rows.\<close>

definition sql_union :: "'r list \<Rightarrow> 'r list \<Rightarrow> 'r list" where
  "sql_union xs ys = remdups (xs @ ys)"

text \<open>\<open>LATERAL VIEW explode(experiments) t AS exp\<close>: one row for each array element.\<close>

definition lateral_view_explode :: "event list \<Rightarrow> (event \<times> exp) list" where
  "lateral_view_explode es = concat (map (\<lambda>e. map (\<lambda>exp. (e, exp)) (experiments e)) es)"

text \<open>\<open>xs INNER JOIN ys ON on\<close>.\<close>

definition inner_join :: "('a \<Rightarrow> 'b \<Rightarrow> bool) \<Rightarrow> 'a list \<Rightarrow> 'b list \<Rightarrow> ('a \<times> 'b) list" where
  "inner_join on xs ys = concat (map (\<lambda>x. map (\<lambda>y. (x, y)) [y \<leftarrow> ys. on x y]) xs)"

text \<open>
  \<open>ORDER BY\<close>, for the order \<open>le\<close> its sort keys and directions give. Spark leaves the
  order of rows with equal keys open; the model inserts from the right, which keeps
  them in input order.
\<close>

fun insort_by :: "('a \<Rightarrow> 'a \<Rightarrow> bool) \<Rightarrow> 'a \<Rightarrow> 'a list \<Rightarrow> 'a list" where
  "insort_by le x [] = [x]"
| "insort_by le x (y # ys) = (if le x y then x # y # ys else y # insort_by le x ys)"

definition order_by :: "('a \<Rightarrow> 'a \<Rightarrow> bool) \<Rightarrow> 'a list \<Rightarrow> 'a list" where
  "order_by le rows = foldr (insort_by le) rows []"

text \<open>
  Reading a count off a grouped result: the count of the row with that key, and 0 for a
  key with no row.
\<close>

definition count_of :: "'k \<Rightarrow> ('k \<times> nat) list \<Rightarrow> nat" where
  "count_of k result = (case map_of result k of None \<Rightarrow> 0 | Some c \<Rightarrow> c)"

section \<open>Computing experiment subjects\<close>

text \<open>\<open>subject_id = "visitor_id"\<close>: the column that identifies a subject.\<close>

definition subject_id :: "decision \<Rightarrow> string" where
  "subject_id = decision.visitor_id"

text \<open>
  The view \<open>decisions\<close>:
  \<open>SELECT * FROM loaded_decisions WHERE timestamp BETWEEN decisions_start AND decisions_end\<close>.
\<close>

definition decisions_view :: "int \<Rightarrow> int \<Rightarrow> decision list \<Rightarrow> decision list" where
  "decisions_view decisions_start decisions_end loaded_decisions =
     window_filter decision.timestamp decisions_start decisions_end loaded_decisions"

text \<open>
  \<open>RANK() OVER (PARTITION BY experiment_id, subject_id ORDER BY timestamp ASC)\<close>: one
  more than the number of rows of the same partition that sort strictly before the row.
\<close>

definition rnk :: "decision list \<Rightarrow> decision \<Rightarrow> nat" where
  "rnk rows d =
     Suc (length [d' \<leftarrow> rows.
            decision.experiment_id d' = decision.experiment_id d \<and> subject_id d' = subject_id d \<and>
            decision.timestamp d' < decision.timestamp d])"

definition select_subject :: "decision \<Rightarrow> subject" where
  "select_subject d =
     \<lparr>subject.visitor_id = subject_id d,
      subject.experiment_id = decision.experiment_id d,
      subject.variation_id = decision.variation_id d,
      subject.timestamp = decision.timestamp d\<rparr>"

text \<open>
  The view \<open>experiment_subjects\<close> over the view \<open>decisions\<close>: the rows of rank 1,
  \<open>ORDER BY timestamp ASC\<close>.
\<close>

definition experiment_subjects :: "decision list \<Rightarrow> subject list" where
  "experiment_subjects rows =
     order_by (\<lambda>a b. subject.timestamp a \<le> subject.timestamp b)
       (map select_subject [d \<leftarrow> rows. rnk rows d = 1])"

text \<open>
  \<open>SELECT experiment_id, variation_id, COUNT(1) AS subject_count FROM experiment_subjects
  GROUP BY experiment_id, variation_id ORDER BY experiment_id, variation_id\<close>.
\<close>

definition subject_count :: "subject list \<Rightarrow> ((string \<times> string) \<times> nat) list" where
  "subject_count rows =
     order_by (\<lambda>a b. fst (fst a) < fst (fst b) \<or> (fst (fst a) = fst (fst b) \<and> snd (fst a) \<le> snd (fst b)))
       (group_by (\<lambda>s. (subject.experiment_id s, subject.variation_id s)) count_rows rows)"

section \<open>Querying enriched event data\<close>

text \<open>Unique visitors (Optimizely Web): events \<open>UNION\<close> decisions, \<open>COUNT(DISTINCT visitor_id)\<close>.\<close>

definition web_event_triples :: "int \<Rightarrow> int \<Rightarrow> database \<Rightarrow> (string \<times> string \<times> string) list" where
  "web_event_triples start end db =
     map (\<lambda>(e, exp). (exp.experiment_id exp, exp.variation_id exp, event.visitor_id e))
       [r \<leftarrow> lateral_view_explode (events db). between (event.timestamp (fst r)) start end]"

definition decision_triples :: "int \<Rightarrow> int \<Rightarrow> database \<Rightarrow> (string \<times> string \<times> string) list" where
  "decision_triples start end db =
     map (\<lambda>d. (decision.experiment_id d, decision.variation_id d, decision.visitor_id d))
       [d \<leftarrow> decisions db. between (decision.timestamp d) start end \<and> is_holdback d = False]"

definition unique_visitors_web :: "int \<Rightarrow> int \<Rightarrow> database \<Rightarrow> ((string \<times> string) \<times> nat) list" where
  "unique_visitors_web start end db =
     order_by (\<lambda>a b. fst (fst a) < fst (fst b) \<or> (fst (fst a) = fst (fst b) \<and> snd (fst a) \<le> snd (fst b)))
       (group_by (\<lambda>(x, v, s). (x, v)) (count_distinct (\<lambda>(x, v, s). s))
          (sql_union (web_event_triples start end db) (decision_triples start end db)))"

text \<open>Unique visitors (Full Stack): decisions only; the query has no \<open>ORDER BY\<close>.\<close>

definition unique_visitors_fs :: "int \<Rightarrow> int \<Rightarrow> database \<Rightarrow> ((string \<times> string) \<times> nat) list" where
  "unique_visitors_fs start end db =
     group_by (\<lambda>d. (decision.experiment_id d, decision.variation_id d)) (count_distinct decision.visitor_id)
       [d \<leftarrow> decisions db. between (decision.timestamp d) start end \<and> is_holdback d = False]"

text \<open>
  Conversion count (Optimizely Web): the exploded events of the window, counted by
  experiment, variation and event name;
  \<open>ORDER BY experiment_id DESC, variation_id DESC, event_name ASC\<close>.
\<close>

definition conversion_count_web ::
  "int \<Rightarrow> int \<Rightarrow> database \<Rightarrow> ((string \<times> string \<times> string) \<times> nat) list" where
  "conversion_count_web start end db =
     order_by (\<lambda>a b. fst (fst a) > fst (fst b) \<or> (fst (fst a) = fst (fst b) \<and>
                 (fst (snd (fst a)) > fst (snd (fst b)) \<or> (fst (snd (fst a)) = fst (snd (fst b)) \<and>
                    snd (snd (fst a)) \<le> snd (snd (fst b))))))
       (group_by (\<lambda>(e, exp). (exp.experiment_id exp, exp.variation_id exp, event_name e))
          count_rows
          [r \<leftarrow> lateral_view_explode (events db). between (event.timestamp (fst r)) start end])"

text \<open>
  Conversion count (Optimizely Full Stack). The subquery \<open>d\<close>: the earliest decision of
  the window, outside holdback, of each experiment, variation and visitor.
\<close>

definition decision_groups ::
  "int \<Rightarrow> int \<Rightarrow> database \<Rightarrow> ((string \<times> string \<times> string) \<times> int option) list" where
  "decision_groups start end db =
     group_by (\<lambda>d. (decision.experiment_id d, decision.variation_id d, decision.visitor_id d))
       (sql_min decision.timestamp)
       [d \<leftarrow> decisions db. between (decision.timestamp d) start end \<and> is_holdback d = False]"

text \<open>
  The joined subquery: \<open>events e INNER JOIN d ON e.visitor_id = d.visitor_id WHERE
  e.timestamp BETWEEN start AND end AND e.timestamp >= d.decision_timestamp\<close>, selecting
  \<open>d.experiment_id, d.variation_id, e.event_name, e.visitor_id\<close>.
\<close>

definition attributed_events ::
  "int \<Rightarrow> int \<Rightarrow> database \<Rightarrow> (string \<times> string \<times> string \<times> string) list" where
  "attributed_events start end db =
     map (\<lambda>(e, d). (fst (fst d), fst (snd (fst d)), event_name e, event.visitor_id e))
       [j \<leftarrow> inner_join (\<lambda>e d. event.visitor_id e = snd (snd (fst d)))
               (events db) (decision_groups start end db).
          between (event.timestamp (fst j)) start end \<and>
          ge_nullable (event.timestamp (fst j)) (snd (snd j))]"

text \<open>
  The outer query: \<open>GROUP BY experiment_id, variation_id, event_name\<close>, \<open>COUNT(1)\<close>,
  \<open>ORDER BY experiment_id DESC, variation_id ASC\<close>.
\<close>

definition conversion_count_fs ::
  "int \<Rightarrow> int \<Rightarrow> database \<Rightarrow> ((string \<times> string \<times> string) \<times> nat) list" where
  "conversion_count_fs start end db =
     order_by (\<lambda>a b. fst (fst a) > fst (fst b) \<or> (fst (fst a) = fst (fst b) \<and>
                 fst (snd (fst a)) \<le> fst (snd (fst b))))
       (group_by (\<lambda>(x, v, n, s). (x, v, n)) count_rows (attributed_events start end db))"

section \<open>Scenario data\<close>

text \<open>
  The decisions \<open>(s1,e1,vA,t=10)\<close>, \<open>(s1,e1,vB,t=20)\<close>, \<open>(s2,e1,vA,t=15)\<close>, none in
  holdback, and a \<open>purchase\<close> event of \<open>s1\<close> attributed to \<open>(e1,vA)\<close>.
\<close>

definition decision_at :: "string \<Rightarrow> string \<Rightarrow> string \<Rightarrow> int \<Rightarrow> bool \<Rightarrow> decision" where
  "decision_at s x v t h =
     \<lparr>decision.visitor_id = s, decision.experiment_id = x, decision.variation_id = v,
      decision.timestamp = t, is_holdback = h, process_timestamp = t\<rparr>"

definition scenario_decisions :: "decision list" where
  "scenario_decisions =
     [decision_at ''s1'' ''e1'' ''vA'' 10 False,
      decision_at ''s1'' ''e1'' ''vB'' 20 False,
      decision_at ''s2'' ''e1'' ''vA'' 15 False]"

definition purchase_at :: "int \<Rightarrow> exp list \<Rightarrow> event" where
  "purchase_at t exps =
     \<lparr>event.visitor_id = ''s1'', event_name = ''purchase'', event.timestamp = t,
      experiments = exps\<rparr>"

definition e1_vA :: exp where
  "e1_vA = \<lparr>exp.experiment_id = ''e1'', exp.variation_id = ''vA''\<rparr>"

definition scenario :: "int \<Rightarrow> database" where
  "scenario t = \<lparr>decisions = scenario_decisions, events = [purchase_at t [e1_vA]]\<rparr>"

text \<open>A row of \<open>experiment_subjects\<close>; a decision delivered twice; a decision in holdback.\<close>

definition subject_row :: "string \<Rightarrow> string \<Rightarrow> string \<Rightarrow> int \<Rightarrow> subject" where
  "subject_row s x v t =
     \<lparr>subject.visitor_id = s, subject.experiment_id = x, subject.variation_id = v, subject.timestamp = t\<rparr>"

definition repeated_decisions :: "decision list" where
  "repeated_decisions = [decision_at ''s1'' ''e1'' ''vA'' 10 False, decision_at ''s1'' ''e1'' ''vA'' 10 False]"

definition holdback_decisions :: "decision list" where
  "holdback_decisions = [decision_at ''s1'' ''e1'' ''vA'' 10 True]"

text \<open>
  An event whose \<open>experiments\<close> array lists \<open>(e1,vA)\<close> twice; an event of a visitor with
  no decision; an event with an empty \<open>experiments\<close> array.
\<close>

definition repeated_attribution :: database where
  "repeated_attribution = \<lparr>decisions = [], events = [purchase_at 12 [e1_vA, e1_vA]]\<rparr>"

definition unexposed :: database where
  "unexposed = \<lparr>decisions = [decision_at ''s2'' ''e1'' ''vA'' 15 False], events = [purchase_at 12 [e1_vA]]\<rparr>"

definition unenriched :: database where
  "unenriched = \<lparr>decisions = scenario_decisions, events = [purchase_at 12 []]\<rparr>"

section \<open>Properties of the SQL operators\<close>

lemma mset_insort_by: "mset (insort_by le x xs) = add_mset x (mset xs)"
  by (induction xs) auto

lemma mset_order_by: "mset (order_by le xs) = mset xs"
  unfolding order_by_def by (induction xs) (auto simp: mset_insort_by)

lemma set_order_by: "set (order_by le xs) = set xs"
  using mset_order_by [of le xs] by (metis set_mset_mset)

lemma distinct_keys_order_by: "distinct (map fst (order_by le xs)) = distinct (map fst xs)"
proof -
  have "mset (map fst (order_by le xs)) = mset (map fst xs)"
    by (simp add: mset_order_by)
  then show ?thesis by (metis mset_eq_imp_distinct_iff)
qed

lemma map_of_order_by:
  assumes "distinct (map fst xs)"
  shows "map_of (order_by le xs) = map_of xs"
proof (rule ext)
  fix k
  show "map_of (order_by le xs) k = map_of xs k"
  proof (cases "map_of xs k")
    case None
    then have "k \<notin> fst ` set xs"
      by (simp add: map_of_eq_None_iff)
    then have "k \<notin> fst ` set (order_by le xs)"
      by (simp add: set_order_by)
    then have "map_of (order_by le xs) k = None"
      by (simp add: map_of_eq_None_iff)
    then show ?thesis using None by simp
  next
    case (Some v)
    then have "(k, v) \<in> set (order_by le xs)"
      by (simp add: set_order_by map_of_SomeD)
    moreover have "distinct (map fst (order_by le xs))"
      using assms by (simp add: distinct_keys_order_by)
    ultimately show ?thesis using Some by simp
  qed
qed

lemma distinct_keys_group_by: "distinct (map fst (group_by key agg rows))"
  by (simp add: group_by_def comp_def)

lemma map_of_group_by:
  "map_of (group_by key agg rows) k =
     (if k \<in> key ` set rows then Some (agg [r \<leftarrow> rows. key r = k]) else None)"
  by (simp add: group_by_def map_of_map_restrict restrict_map_def)

lemma count_of_order_by:
  "count_of k (order_by le (group_by key agg rows)) = count_of k (group_by key agg rows)"
  by (simp add: count_of_def map_of_order_by distinct_keys_group_by)

lemma count_of_count_rows:
  "count_of k (group_by key count_rows rows) = length [r \<leftarrow> rows. key r = k]"
proof -
  have "k \<notin> key ` set rows \<Longrightarrow> [r \<leftarrow> rows. key r = k] = []"
    by (auto simp: filter_empty_conv)
  then show ?thesis
    by (auto simp: count_of_def map_of_group_by count_rows_def)
qed

lemma count_of_count_distinct:
  "count_of k (group_by key (count_distinct f) rows) = card (f ` {r \<in> set rows. key r = k})"
proof -
  have "length (remdups (map f [r \<leftarrow> rows. key r = k])) = card (f ` {r \<in> set rows. key r = k})"
    by (simp add: length_remdups_card_conv)
  moreover have "k \<notin> key ` set rows \<Longrightarrow> {r \<in> set rows. key r = k} = {}"
    by auto
  ultimately show ?thesis
    by (auto simp: count_of_def map_of_group_by count_distinct_def)
qed

section \<open>The window filter\<close>

text \<open>
  C3. For every table, every timestamp column \<open>f\<close> and all bounds, the window filter
  returns exactly the rows with \<open>start \<le> f r \<le> end\<close>, in their order and with their
  multiplicity: the result is a sublist of the input, every row kept lies in the closed
  interval, every row of the input in the interval is kept, and filtering again with
  the same column and bounds changes nothing. The view \<open>decisions\<close> of the subjects
  notebook is this filter on the column \<open>timestamp\<close>. The bounds need not be ordered:
  with \<open>end < start\<close> the interval, and so the result, is empty.
\<close>

theorem window_filter_exact:
  "window_filter f start end rows = [r \<leftarrow> rows. start \<le> f r \<and> f r \<le> end] \<and>
   set (window_filter f start end rows) \<subseteq> set rows \<and>
   mset (window_filter f start end rows) \<subseteq># mset rows \<and>
   (\<forall>r \<in> set (window_filter f start end rows). start \<le> f r \<and> f r \<le> end) \<and>
   (\<forall>r \<in> set rows. start \<le> f r \<and> f r \<le> end \<longrightarrow> r \<in> set (window_filter f start end rows)) \<and>
   window_filter f start end (window_filter f start end rows) = window_filter f start end rows \<and>
   decisions_view start end loaded = [d \<leftarrow> loaded. start \<le> decision.timestamp d \<and> decision.timestamp d \<le> end] \<and>
   decisions_view start end (decisions_view start end loaded) = decisions_view start end loaded"
proof -
  have exact: "window_filter g start end xs = [r \<leftarrow> xs. start \<le> g r \<and> g r \<le> end]" for g and xs :: "'b list"
    by (simp add: window_filter_def between_def)
  have sub: "set (window_filter f start end rows) \<subseteq> set rows"
    unfolding exact by (rule filter_is_subset)
  have msub: "mset (window_filter f start end rows) \<subseteq># mset rows"
    unfolding exact mset_filter by (rule multiset_filter_subset)
  have inside: "\<forall>r \<in> set (window_filter f start end rows). start \<le> f r \<and> f r \<le> end"
    unfolding exact by simp
  have kept: "\<forall>r \<in> set rows. start \<le> f r \<and> f r \<le> end \<longrightarrow> r \<in> set (window_filter f start end rows)"
    unfolding exact by simp
  have idem: "window_filter g start end (window_filter g start end xs) = window_filter g start end xs"
    for g and xs :: "'b list"
    unfolding exact by simp
  have view: "decisions_view start end loaded =
      [d \<leftarrow> loaded. start \<le> decision.timestamp d \<and> decision.timestamp d \<le> end]"
    unfolding decisions_view_def by (rule exact)
  have view_idem: "decisions_view start end (decisions_view start end loaded) = decisions_view start end loaded"
    unfolding decisions_view_def by (rule idem)
  show ?thesis
    using exact [of f rows] sub msub inside kept idem [of f rows] view view_idem by blast
qed

theorem window_filter_exact_witness:
  "decisions_view 12 20 scenario_decisions =
     [decision_at ''s1'' ''e1'' ''vB'' 20 False, decision_at ''s2'' ''e1'' ''vA'' 15 False] \<and>
   decision_at ''s2'' ''e1'' ''vA'' 15 False \<in> set (window_filter decision.timestamp 12 20 scenario_decisions) \<and>
   (12::int) \<le> decision.timestamp (decision_at ''s2'' ''e1'' ''vA'' 15 False) \<and>
   decision.timestamp (decision_at ''s2'' ''e1'' ''vA'' 15 False) \<le> (20::int) \<and>
   decisions_view 12 20 (decisions_view 12 20 scenario_decisions) = decisions_view 12 20 scenario_decisions"
proof -
  note exact = window_filter_exact [of decision.timestamp 12 20 scenario_decisions scenario_decisions]
  have view: "decisions_view 12 20 scenario_decisions =
      [decision_at ''s1'' ''e1'' ''vB'' 20 False, decision_at ''s2'' ''e1'' ''vA'' 15 False]"
    using exact by (simp add: scenario_decisions_def decision_at_def)
  have kept: "decision_at ''s2'' ''e1'' ''vA'' 15 False \<in> set (window_filter decision.timestamp 12 20 scenario_decisions)"
    using view by (simp add: decisions_view_def)
  have bounds: "12 \<le> decision.timestamp (decision_at ''s2'' ''e1'' ''vA'' 15 False) \<and>
      decision.timestamp (decision_at ''s2'' ''e1'' ''vA'' 15 False) \<le> 20"
    using exact kept by blast
  have again: "decisions_view 12 20 (decisions_view 12 20 scenario_decisions) = decisions_view 12 20 scenario_decisions"
    using exact by blast
  show ?thesis using view kept bounds again by blast
qed

section \<open>Unique visitors, Full Stack\<close>

text \<open>
  C4. For every input and every experiment \<open>x\<close> and variation \<open>v\<close>, the Full Stack
  unique-visitor count is the number of distinct visitor ids among the decisions of
  \<open>(x, v)\<close> with timestamp in \<open>[start, end]\<close> and \<open>is_holdback = false\<close>, and it is at
  most the number of those decision rows.
\<close>

theorem unique_visitors_fs_distinct_subjects:
  "count_of (x, v) (unique_visitors_fs start end db) =
     card (decision.visitor_id `
       {d \<in> set (decisions db). start \<le> decision.timestamp d \<and> decision.timestamp d \<le> end \<and>
          \<not> is_holdback d \<and> decision.experiment_id d = x \<and> decision.variation_id d = v}) \<and>
   count_of (x, v) (unique_visitors_fs start end db) \<le>
     length [d \<leftarrow> decisions db. start \<le> decision.timestamp d \<and> decision.timestamp d \<le> end \<and>
          \<not> is_holdback d \<and> decision.experiment_id d = x \<and> decision.variation_id d = v]"
proof -
  let ?q = "\<lambda>d. start \<le> decision.timestamp d \<and> decision.timestamp d \<le> end \<and> \<not> is_holdback d \<and>
               decision.experiment_id d = x \<and> decision.variation_id d = v"
  have sets: "{r \<in> set [d \<leftarrow> decisions db. between (decision.timestamp d) start end \<and> is_holdback d = False].
                 (decision.experiment_id r, decision.variation_id r) = (x, v)} =
              {d \<in> set (decisions db). ?q d}"
    by (auto simp: between_def)
  have count: "count_of (x, v) (unique_visitors_fs start end db) =
                 card (decision.visitor_id ` {d \<in> set (decisions db). ?q d})"
    unfolding unique_visitors_fs_def count_of_count_distinct sets ..
  have "card (decision.visitor_id ` {d \<in> set (decisions db). ?q d}) \<le> card {d \<in> set (decisions db). ?q d}"
    by (rule card_image_le) simp
  also have "{d \<in> set (decisions db). ?q d} = set [d \<leftarrow> decisions db. ?q d]"
    by simp
  also have "card (set [d \<leftarrow> decisions db. ?q d]) \<le> length [d \<leftarrow> decisions db. ?q d]"
    by (rule card_length)
  finally show ?thesis using count by simp
qed

section \<open>Experiment subjects\<close>

lemma rnk_first:
  "rnk rows d = 1 \<longleftrightarrow>
     (\<forall>d' \<in> set rows. decision.experiment_id d' = decision.experiment_id d \<and> subject_id d' = subject_id d
        \<longrightarrow> decision.timestamp d \<le> decision.timestamp d')"
  by (auto simp: rnk_def filter_empty_conv not_less)

lemma mset_experiment_subjects:
  "mset (experiment_subjects rows) = image_mset select_subject (filter_mset (\<lambda>d. rnk rows d = 1) (mset rows))"
  by (simp add: experiment_subjects_def mset_order_by)

lemma set_experiment_subjects:
  "set (experiment_subjects rows) = select_subject ` {d \<in> set rows. rnk rows d = 1}"
  by (simp add: experiment_subjects_def set_order_by)

lemma partition_has_first:
  assumes "d \<in> set rows"
  shows "\<exists>d0 \<in> set rows. decision.experiment_id d0 = decision.experiment_id d \<and> subject_id d0 = subject_id d \<and>
           rnk rows d0 = 1 \<and>
           decision.timestamp d0 = Min (decision.timestamp ` {d' \<in> set rows.
              decision.experiment_id d' = decision.experiment_id d \<and> subject_id d' = subject_id d})"
proof -
  let ?P = "{d' \<in> set rows. decision.experiment_id d' = decision.experiment_id d \<and> subject_id d' = subject_id d}"
  have fin: "finite (decision.timestamp ` ?P)" by simp
  have ne: "decision.timestamp ` ?P \<noteq> {}" using assms by auto
  from Min_in [OF fin ne] obtain d0 where d0: "d0 \<in> ?P" "decision.timestamp d0 = Min (decision.timestamp ` ?P)"
    by (metis (no_types, lifting) image_iff)
  have "rnk rows d0 = 1"
    unfolding rnk_first
  proof (intro ballI impI)
    fix d' assume "d' \<in> set rows"
      and "decision.experiment_id d' = decision.experiment_id d0 \<and> subject_id d' = subject_id d0"
    then have "d' \<in> ?P" using d0(1) by simp
    then have "Min (decision.timestamp ` ?P) \<le> decision.timestamp d'"
      by (intro Min_le) auto
    then show "decision.timestamp d0 \<le> decision.timestamp d'" using d0(2) by simp
  qed
  then show ?thesis using d0 by auto
qed

lemma first_is_min:
  assumes "d \<in> set rows" "rnk rows d = 1"
  shows "decision.timestamp d = Min (decision.timestamp ` {d' \<in> set rows.
              decision.experiment_id d' = decision.experiment_id d \<and> subject_id d' = subject_id d})"
proof -
  let ?P = "{d' \<in> set rows. decision.experiment_id d' = decision.experiment_id d \<and> subject_id d' = subject_id d}"
  have "Min (decision.timestamp ` ?P) = decision.timestamp d"
  proof (rule Min_eqI)
    show "finite (decision.timestamp ` ?P)" by simp
    show "decision.timestamp d \<in> decision.timestamp ` ?P" using assms(1) by auto
    fix t assume "t \<in> decision.timestamp ` ?P"
    then show "decision.timestamp d \<le> t" using assms(2) unfolding rnk_first by auto
  qed
  then show ?thesis by simp
qed

lemma flip_rnk: "rnk (map (\<lambda>d. d\<lparr>is_holdback := h d\<rparr>) rows) (d\<lparr>is_holdback := b\<rparr>) = rnk rows d"
  by (simp add: rnk_def subject_id_def filter_map comp_def)

lemma select_flip: "select_subject (d\<lparr>is_holdback := b\<rparr>) = select_subject d"
  by (simp add: select_subject_def subject_id_def)

lemma flip_subjects:
  "experiment_subjects (map (\<lambda>d. d\<lparr>is_holdback := h d\<rparr>) rows) = experiment_subjects rows"
  by (simp add: experiment_subjects_def filter_map comp_def flip_rnk select_flip)

lemma subject_count_positive:
  assumes "r \<in> set subjects"
  shows "1 \<le> count_of (subject.experiment_id r, subject.variation_id r) (subject_count subjects)"
proof -
  have "r \<in> set [s \<leftarrow> subjects. (subject.experiment_id s, subject.variation_id s) =
                     (subject.experiment_id r, subject.variation_id r)]"
    using assms by simp
  then have "0 < length [s \<leftarrow> subjects. (subject.experiment_id s, subject.variation_id s) =
                     (subject.experiment_id r, subject.variation_id r)]"
    by (rule length_pos_if_in_set)
  then have "1 \<le> length [s \<leftarrow> subjects. (subject.experiment_id s, subject.variation_id s) =
                     (subject.experiment_id r, subject.variation_id r)]"
    by linarith
  then show ?thesis
    unfolding subject_count_def count_of_order_by count_of_count_rows .
qed


text \<open>
  C1. For every decision table the view \<open>experiment_subjects\<close> is computed from (the
  filtered decisions), and every experiment and subject with a decision there, the view
  holds exactly the decisions of minimum timestamp of that pair: as a multiset, its
  rows are the selected columns of the decisions that no decision of the same
  experiment and subject precedes, so decisions tied at the minimum are all kept; every
  pair with a decision has a row; every row carries the minimum timestamp of its pair
  and the variation of a decision at that minimum. On the decisions
  \<open>(s1,e1,vA,10)\<close>, \<open>(s1,e1,vB,20)\<close>, \<open>(s2,e1,vA,15)\<close> with window \<open>[0,100]\<close> the view
  is \<open>(s1,e1,vA,10)\<close>, \<open>(s2,e1,vA,15)\<close>.
\<close>

theorem experiment_subjects_first_decisions:
  "mset (experiment_subjects rows) =
     image_mset select_subject
       (filter_mset (\<lambda>d. \<forall>d' \<in> set rows.
            decision.experiment_id d' = decision.experiment_id d \<and> subject_id d' = subject_id d
              \<longrightarrow> decision.timestamp d \<le> decision.timestamp d') (mset rows)) \<and>
   (\<forall>d \<in> set rows. \<exists>r \<in> set (experiment_subjects rows).
      subject.experiment_id r = decision.experiment_id d \<and> subject.visitor_id r = subject_id d) \<and>
   (\<forall>r \<in> set (experiment_subjects rows).
      subject.timestamp r = Min (decision.timestamp ` {d \<in> set rows.
         decision.experiment_id d = subject.experiment_id r \<and> subject_id d = subject.visitor_id r}) \<and>
      (\<exists>d \<in> set rows.
         decision.experiment_id d = subject.experiment_id r \<and> subject_id d = subject.visitor_id r \<and>
         decision.timestamp d = subject.timestamp r \<and> decision.variation_id d = subject.variation_id r)) \<and>
   experiment_subjects (decisions_view 0 100 scenario_decisions) =
     [subject_row ''s1'' ''e1'' ''vA'' 10, subject_row ''s2'' ''e1'' ''vA'' 15]"
proof (intro conjI ballI)
  show "mset (experiment_subjects rows) =
     image_mset select_subject
       (filter_mset (\<lambda>d. \<forall>d' \<in> set rows.
            decision.experiment_id d' = decision.experiment_id d \<and> subject_id d' = subject_id d
              \<longrightarrow> decision.timestamp d \<le> decision.timestamp d') (mset rows))"
    by (simp only: mset_experiment_subjects rnk_first)
next
  fix d assume "d \<in> set rows"
  from partition_has_first [OF this] obtain d0 where
    "d0 \<in> set rows" "decision.experiment_id d0 = decision.experiment_id d" "subject_id d0 = subject_id d"
    "rnk rows d0 = 1" by blast
  then have "select_subject d0 \<in> set (experiment_subjects rows)"
    by (simp add: set_experiment_subjects)
  moreover have "subject.experiment_id (select_subject d0) = decision.experiment_id d"
    "subject.visitor_id (select_subject d0) = subject_id d"
    using \<open>decision.experiment_id d0 = decision.experiment_id d\<close> \<open>subject_id d0 = subject_id d\<close>
    by (simp_all add: select_subject_def)
  ultimately show "\<exists>r \<in> set (experiment_subjects rows).
      subject.experiment_id r = decision.experiment_id d \<and> subject.visitor_id r = subject_id d"
    by blast
next
  fix r assume "r \<in> set (experiment_subjects rows)"
  then obtain d where d: "d \<in> set rows" "rnk rows d = 1" "r = select_subject d"
    by (auto simp: set_experiment_subjects)
  have fields: "subject.experiment_id r = decision.experiment_id d" "subject.visitor_id r = subject_id d"
    "subject.timestamp r = decision.timestamp d" "subject.variation_id r = decision.variation_id d"
    using d(3) by (simp_all add: select_subject_def)
  show "subject.timestamp r = Min (decision.timestamp ` {d \<in> set rows.
         decision.experiment_id d = subject.experiment_id r \<and> subject_id d = subject.visitor_id r})"
    using first_is_min [OF d(1,2)] fields by simp
  show "\<exists>d \<in> set rows.
         decision.experiment_id d = subject.experiment_id r \<and> subject_id d = subject.visitor_id r \<and>
         decision.timestamp d = subject.timestamp r \<and> decision.variation_id d = subject.variation_id r"
    using d(1) fields by auto
next
  show "experiment_subjects (decisions_view 0 100 scenario_decisions) =
     [subject_row ''s1'' ''e1'' ''vA'' 10, subject_row ''s2'' ''e1'' ''vA'' 15]"
    by (simp add: experiment_subjects_def decisions_view_def window_filter_def between_def
      scenario_decisions_def decision_at_def rnk_def subject_id_def select_subject_def order_by_def
      subject_row_def)
qed

theorem experiment_subjects_first_decisions_witness:
  "subject_row ''s2'' ''e1'' ''vA'' 15 \<in> set (experiment_subjects (decisions_view 0 100 scenario_decisions)) \<and>
   Min (decision.timestamp ` {d \<in> set (decisions_view 0 100 scenario_decisions).
         decision.experiment_id d = ''e1'' \<and> subject_id d = ''s2''}) = 15 \<and>
   mset (experiment_subjects repeated_decisions) =
     {#subject_row ''s1'' ''e1'' ''vA'' 10, subject_row ''s1'' ''e1'' ''vA'' 10#}"
proof -
  note first = experiment_subjects_first_decisions [of "decisions_view 0 100 scenario_decisions"]
  have row: "subject_row ''s2'' ''e1'' ''vA'' 15 \<in> set (experiment_subjects (decisions_view 0 100 scenario_decisions))"
    using first by simp
  have "subject.timestamp (subject_row ''s2'' ''e1'' ''vA'' 15) =
      Min (decision.timestamp ` {d \<in> set (decisions_view 0 100 scenario_decisions).
         decision.experiment_id d = subject.experiment_id (subject_row ''s2'' ''e1'' ''vA'' 15) \<and>
         subject_id d = subject.visitor_id (subject_row ''s2'' ''e1'' ''vA'' 15)})"
    using first row by blast
  then have min: "Min (decision.timestamp ` {d \<in> set (decisions_view 0 100 scenario_decisions).
         decision.experiment_id d = ''e1'' \<and> subject_id d = ''s2''}) = 15"
    by (simp add: subject_row_def)
  have "mset (experiment_subjects repeated_decisions) =
     image_mset select_subject
       (filter_mset (\<lambda>d. \<forall>d' \<in> set repeated_decisions.
            decision.experiment_id d' = decision.experiment_id d \<and> subject_id d' = subject_id d
              \<longrightarrow> decision.timestamp d \<le> decision.timestamp d') (mset repeated_decisions))"
    using experiment_subjects_first_decisions [of repeated_decisions] by blast
  then have ties: "mset (experiment_subjects repeated_decisions) =
     {#subject_row ''s1'' ''e1'' ''vA'' 10, subject_row ''s1'' ''e1'' ''vA'' 10#}"
    by (simp add: repeated_decisions_def decision_at_def select_subject_def subject_id_def subject_row_def)
  show ?thesis using row min ties by blast
qed


text \<open>
  C6. The view \<open>experiment_subjects\<close> does not hold one row for each experiment and
  subject: \<open>RANK()\<close> gives rank 1 to every decision tied at the earliest timestamp. A
  decision of \<open>s1\<close> for \<open>(e1, vA)\<close> at \<open>t = 10\<close> that is in the table twice yields two
  rows for \<open>(e1, s1)\<close>, and \<open>subject_count\<close> then reports 2 subjects for \<open>(e1, vA)\<close>,
  where the Full Stack unique-visitor query, on the same decisions, counts 1 visitor.
\<close>

theorem repeated_decision_two_subject_rows:
  "experiment_subjects (decisions_view 0 100 repeated_decisions) =
     [subject_row ''s1'' ''e1'' ''vA'' 10, subject_row ''s1'' ''e1'' ''vA'' 10] \<and>
   subject_count (experiment_subjects (decisions_view 0 100 repeated_decisions)) = [((''e1'', ''vA''), 2)] \<and>
   unique_visitors_fs 0 100 \<lparr>decisions = repeated_decisions, events = []\<rparr> = [((''e1'', ''vA''), 1)]"
  by (simp add: experiment_subjects_def decisions_view_def window_filter_def between_def
      repeated_decisions_def decision_at_def rnk_def subject_id_def select_subject_def order_by_def
      subject_row_def subject_count_def group_by_def count_rows_def unique_visitors_fs_def count_distinct_def)



text \<open>
  C9. The view \<open>experiment_subjects\<close> never reads \<open>is_holdback\<close>: on a table with every
  \<open>is_holdback\<close> flipped it is the same view. So a decision in holdback is ranked as any
  other: every experiment and subject with a holdback decision in the table has a row,
  and that row is counted by \<open>subject_count\<close>. The Full Stack unique-visitor count is 0
  for an experiment and variation all of whose decisions in the window are in holdback.
\<close>

theorem experiment_subjects_ignore_holdback:
  "experiment_subjects (map (\<lambda>d. d\<lparr>is_holdback := \<not> is_holdback d\<rparr>) rows) = experiment_subjects rows \<and>
   (\<forall>d \<in> set rows. is_holdback d \<longrightarrow>
      (\<exists>r \<in> set (experiment_subjects rows).
         subject.experiment_id r = decision.experiment_id d \<and> subject.visitor_id r = subject_id d \<and>
         1 \<le> count_of (subject.experiment_id r, subject.variation_id r)
                (subject_count (experiment_subjects rows)))) \<and>
   ((\<forall>d \<in> set (decisions db).
       start \<le> decision.timestamp d \<and> decision.timestamp d \<le> end \<and>
       decision.experiment_id d = x \<and> decision.variation_id d = v \<longrightarrow> is_holdback d) \<longrightarrow>
    count_of (x, v) (unique_visitors_fs start end db) = 0)"
proof (intro conjI ballI impI)
  show "experiment_subjects (map (\<lambda>d. d\<lparr>is_holdback := \<not> is_holdback d\<rparr>) rows) = experiment_subjects rows"
    by (rule flip_subjects)
next
  fix d assume "d \<in> set rows"
  from partition_has_first [OF this] obtain d0 where
    d0: "d0 \<in> set rows" "decision.experiment_id d0 = decision.experiment_id d" "subject_id d0 = subject_id d"
    "rnk rows d0 = 1" by blast
  have mem: "select_subject d0 \<in> set (experiment_subjects rows)"
    using d0(1,4) by (simp add: set_experiment_subjects)
  have "subject.experiment_id (select_subject d0) = decision.experiment_id d"
    "subject.visitor_id (select_subject d0) = subject_id d"
    using d0(2,3) by (simp_all add: select_subject_def)
  then show "\<exists>r \<in> set (experiment_subjects rows).
         subject.experiment_id r = decision.experiment_id d \<and> subject.visitor_id r = subject_id d \<and>
         1 \<le> count_of (subject.experiment_id r, subject.variation_id r)
                (subject_count (experiment_subjects rows))"
    using mem subject_count_positive [OF mem] by blast
next
  assume only: "\<forall>d \<in> set (decisions db).
       start \<le> decision.timestamp d \<and> decision.timestamp d \<le> end \<and>
       decision.experiment_id d = x \<and> decision.variation_id d = v \<longrightarrow> is_holdback d"
  have "{r \<in> set [d \<leftarrow> decisions db. between (decision.timestamp d) start end \<and> is_holdback d = False].
           (decision.experiment_id r, decision.variation_id r) = (x, v)} = {}"
    using only by (auto simp: between_def)
  then show "count_of (x, v) (unique_visitors_fs start end db) = 0"
    unfolding unique_visitors_fs_def count_of_count_distinct by simp
qed

theorem experiment_subjects_ignore_holdback_witness:
  "experiment_subjects (map (\<lambda>d. d\<lparr>is_holdback := \<not> is_holdback d\<rparr>) holdback_decisions) =
     [subject_row ''s1'' ''e1'' ''vA'' 10] \<and>
   count_of (''e1'', ''vA'') (subject_count (experiment_subjects holdback_decisions)) = 1 \<and>
   count_of (''e1'', ''vA'') (unique_visitors_fs 0 100 \<lparr>decisions = holdback_decisions, events = []\<rparr>) = 0"
proof -
  note ignore = experiment_subjects_ignore_holdback
    [of holdback_decisions "\<lparr>decisions = holdback_decisions, events = []\<rparr>" 0 100 "''e1''" "''vA''"]
  have rows: "experiment_subjects holdback_decisions = [subject_row ''s1'' ''e1'' ''vA'' 10]"
    by (simp add: experiment_subjects_def holdback_decisions_def decision_at_def rnk_def subject_id_def
        select_subject_def order_by_def subject_row_def)
  have flipped: "experiment_subjects (map (\<lambda>d. d\<lparr>is_holdback := \<not> is_holdback d\<rparr>) holdback_decisions) =
     [subject_row ''s1'' ''e1'' ''vA'' 10]"
    using ignore rows by simp
  have rollup: "count_of (''e1'', ''vA'') (subject_count (experiment_subjects holdback_decisions)) = 1"
    unfolding rows by (simp add: subject_count_def group_by_def count_rows_def order_by_def count_of_def subject_row_def)
  have "\<forall>d \<in> set (decisions \<lparr>decisions = holdback_decisions, events = []\<rparr>).
       0 \<le> decision.timestamp d \<and> decision.timestamp d \<le> 100 \<and>
       decision.experiment_id d = ''e1'' \<and> decision.variation_id d = ''vA'' \<longrightarrow> is_holdback d"
    by (simp add: holdback_decisions_def decision_at_def)
  then have fs: "count_of (''e1'', ''vA'') (unique_visitors_fs 0 100 \<lparr>decisions = holdback_decisions, events = []\<rparr>) = 0"
    using ignore by blast
  show ?thesis using flipped rollup fs by blast
qed


section \<open>Conversion counts, Web\<close>

lemma sum_list_indicator:
  "sum_list (map (\<lambda>x. if P x then 1 else 0) xs) = length (filter P xs)"
  by (induction xs) auto

lemma exploded_count:
  "length [r \<leftarrow> lateral_view_explode es.
             between (event.timestamp (fst r)) start end \<and>
             (exp.experiment_id (snd r), exp.variation_id (snd r), event_name (fst r)) = (x, v, n)] =
   sum_list (map (\<lambda>e. length [exp \<leftarrow> experiments e. exp.experiment_id exp = x \<and> exp.variation_id exp = v])
       [e \<leftarrow> es. start \<le> event.timestamp e \<and> event.timestamp e \<le> end \<and> event_name e = n])"
  by (induction es) (auto simp: lateral_view_explode_def between_def filter_map comp_def)

lemma count_of_conversion_count_web:
  "count_of (x, v, n) (conversion_count_web start end db) =
     sum_list (map (\<lambda>e. length [exp \<leftarrow> experiments e. exp.experiment_id exp = x \<and> exp.variation_id exp = v])
       [e \<leftarrow> events db. start \<le> event.timestamp e \<and> event.timestamp e \<le> end \<and> event_name e = n])"
proof -
  have "count_of (x, v, n) (conversion_count_web start end db) =
      length [r \<leftarrow> lateral_view_explode (events db).
                between (event.timestamp (fst r)) start end \<and>
                (exp.experiment_id (snd r), exp.variation_id (snd r), event_name (fst r)) = (x, v, n)]"
    by (simp add: conversion_count_web_def count_of_order_by count_of_count_rows case_prod_beta conj_commute)
  then show ?thesis by (simp only: exploded_count)
qed

lemma distinct_key_count:
  "distinct (map f xs) \<Longrightarrow> length [y \<leftarrow> xs. f y = k] = (if k \<in> f ` set xs then 1 else 0)"
proof (induction xs)
  case Nil
  then show ?case by simp
next
  case (Cons a xs)
  then have "f a \<notin> f ` set xs" and "distinct (map f xs)" by auto
  then show ?case using Cons.IH by (cases "f a = k") auto
qed

lemma distinct_pair_count:
  assumes "distinct (map (\<lambda>exp. (exp.experiment_id exp, exp.variation_id exp)) exps)"
  shows "length [exp \<leftarrow> exps. exp.experiment_id exp = x \<and> exp.variation_id exp = v] =
     (if (x, v) \<in> (\<lambda>exp. (exp.experiment_id exp, exp.variation_id exp)) ` set exps then 1 else 0)"
  using distinct_key_count [OF assms, of "(x, v)"] by simp

lemma sum_list_cong_set: "(\<And>x. x \<in> set xs \<Longrightarrow> f x = g x) \<Longrightarrow> sum_list (map f xs) = sum_list (map g xs)"
  by (induction xs) auto


text \<open>
  C5, as the query computes it. The Web conversion count reads the events table alone:
  two databases with the same events have the same Web conversion counts, whatever
  their decisions (none at all included). For every experiment \<open>x\<close>, variation \<open>v\<close> and
  event name \<open>n\<close> the count is the number of entries \<open>(x, v)\<close> in the \<open>experiments\<close> arrays
  of the events named \<open>n\<close> with timestamp in \<open>[start, end]\<close>: one count for each exploded
  array entry, not deduplicated by visitor, with no decision required. Where no event
  lists an experiment and variation twice, that is the number of such events whose
  array contains \<open>(x, v)\<close>.
\<close>

theorem conversion_count_web_events_only:
  "(events db' = events db \<longrightarrow> conversion_count_web start end db' = conversion_count_web start end db) \<and>
   count_of (x, v, n) (conversion_count_web start end db) =
     sum_list (map (\<lambda>e. length [exp \<leftarrow> experiments e. exp.experiment_id exp = x \<and> exp.variation_id exp = v])
       [e \<leftarrow> events db. start \<le> event.timestamp e \<and> event.timestamp e \<le> end \<and> event_name e = n]) \<and>
   ((\<forall>e \<in> set (events db). distinct (map (\<lambda>exp. (exp.experiment_id exp, exp.variation_id exp)) (experiments e))) \<longrightarrow>
    count_of (x, v, n) (conversion_count_web start end db) =
      length [e \<leftarrow> events db. start \<le> event.timestamp e \<and> event.timestamp e \<le> end \<and> event_name e = n \<and>
                (x, v) \<in> (\<lambda>exp. (exp.experiment_id exp, exp.variation_id exp)) ` set (experiments e)])"
proof (intro conjI impI)
  assume "events db' = events db"
  then show "conversion_count_web start end db' = conversion_count_web start end db"
    by (simp add: conversion_count_web_def)
next
  show "count_of (x, v, n) (conversion_count_web start end db) =
     sum_list (map (\<lambda>e. length [exp \<leftarrow> experiments e. exp.experiment_id exp = x \<and> exp.variation_id exp = v])
       [e \<leftarrow> events db. start \<le> event.timestamp e \<and> event.timestamp e \<le> end \<and> event_name e = n])"
    by (rule count_of_conversion_count_web)
next
  let ?w = "\<lambda>e. start \<le> event.timestamp e \<and> event.timestamp e \<le> end \<and> event_name e = n"
  let ?c = "\<lambda>e. (x, v) \<in> (\<lambda>exp. (exp.experiment_id exp, exp.variation_id exp)) ` set (experiments e)"
  assume dist: "\<forall>e \<in> set (events db). distinct (map (\<lambda>exp. (exp.experiment_id exp, exp.variation_id exp)) (experiments e))"
  have "sum_list (map (\<lambda>e. length [exp \<leftarrow> experiments e. exp.experiment_id exp = x \<and> exp.variation_id exp = v])
          [e \<leftarrow> events db. ?w e]) =
        sum_list (map (\<lambda>e. if ?c e then 1 else 0) [e \<leftarrow> events db. ?w e])"
    by (rule sum_list_cong_set) (use dist in \<open>simp add: distinct_pair_count\<close>)
  also have "\<dots> = length [e \<leftarrow> [e \<leftarrow> events db. ?w e]. ?c e]"
    by (rule sum_list_indicator)
  also have "\<dots> = length [e \<leftarrow> events db. start \<le> event.timestamp e \<and> event.timestamp e \<le> end \<and> event_name e = n \<and> ?c e]"
    by (simp add: conj_commute conj_left_commute)
  finally show "count_of (x, v, n) (conversion_count_web start end db) =
      length [e \<leftarrow> events db. start \<le> event.timestamp e \<and> event.timestamp e \<le> end \<and> event_name e = n \<and> ?c e]"
    by (simp only: count_of_conversion_count_web)
qed

theorem conversion_count_web_events_only_witness:
  "conversion_count_web 0 100 \<lparr>decisions = [], events = events (scenario 5)\<rparr> = conversion_count_web 0 100 (scenario 5) \<and>
   count_of (''e1'', ''vA'', ''purchase'') (conversion_count_web 0 100 (scenario 5)) = 1"
proof -
  note only = conversion_count_web_events_only
    [of "\<lparr>decisions = [], events = events (scenario 5)\<rparr>" "scenario 5" 0 100 "''e1''" "''vA''" "''purchase''"]
  have same: "conversion_count_web 0 100 \<lparr>decisions = [], events = events (scenario 5)\<rparr> = conversion_count_web 0 100 (scenario 5)"
    using only by simp
  have "\<forall>e \<in> set (events (scenario 5)). distinct (map (\<lambda>exp. (exp.experiment_id exp, exp.variation_id exp)) (experiments e))"
    by (simp add: scenario_def purchase_at_def)
  then have "count_of (''e1'', ''vA'', ''purchase'') (conversion_count_web 0 100 (scenario 5)) =
      length [e \<leftarrow> events (scenario 5). 0 \<le> event.timestamp e \<and> event.timestamp e \<le> 100 \<and> event_name e = ''purchase'' \<and>
                (''e1'', ''vA'') \<in> (\<lambda>exp. (exp.experiment_id exp, exp.variation_id exp)) ` set (experiments e)]"
    using only by blast
  then have "count_of (''e1'', ''vA'', ''purchase'') (conversion_count_web 0 100 (scenario 5)) = 1"
    by (simp add: scenario_def purchase_at_def e1_vA_def)
  then show ?thesis using same by blast
qed


text \<open>
  The count is not the number of events whose array contains the pair: one \<open>purchase\<close>
  event whose array lists \<open>(e1, vA)\<close> twice is counted twice.
\<close>

theorem conversion_count_web_repeated_pair_counterexample:
  "count_of (''e1'', ''vA'', ''purchase'') (conversion_count_web 0 100 repeated_attribution) \<noteq>
   length [e \<leftarrow> events repeated_attribution. 0 \<le> event.timestamp e \<and> event.timestamp e \<le> 100 \<and>
      event_name e = ''purchase'' \<and>
      (''e1'', ''vA'') \<in> (\<lambda>exp. (exp.experiment_id exp, exp.variation_id exp)) ` set (experiments e)]"
  by (simp add: conversion_count_web_def repeated_attribution_def purchase_at_def e1_vA_def
     lateral_view_explode_def between_def group_by_def count_rows_def order_by_def count_of_def)


section \<open>Unique visitors, Web against Full Stack\<close>

lemma set_web_event_triples:
  "set (web_event_triples start end db) =
     {(exp.experiment_id exp, exp.variation_id exp, event.visitor_id e) | e exp.
        e \<in> set (events db) \<and> exp \<in> set (experiments e) \<and>
        start \<le> event.timestamp e \<and> event.timestamp e \<le> end}"
  by (auto simp: web_event_triples_def lateral_view_explode_def between_def image_iff) force+

lemma set_decision_triples:
  "set (decision_triples start end db) =
     {(decision.experiment_id d, decision.variation_id d, decision.visitor_id d) | d.
        d \<in> set (decisions db) \<and> start \<le> decision.timestamp d \<and> decision.timestamp d \<le> end \<and> \<not> is_holdback d}"
  by (auto simp: decision_triples_def between_def)


text \<open>
  C10. For every input and every experiment \<open>x\<close> and variation \<open>v\<close>, the Web
  unique-visitor count is at least the Full Stack unique-visitor count: Web counts the
  visitors of the exploded events of the window united with the visitors of the
  decisions of the window outside holdback, and Full Stack counts the latter.
\<close>

theorem unique_visitors_web_ge_fs:
  "count_of (x, v) (unique_visitors_fs start end db) \<le> count_of (x, v) (unique_visitors_web start end db) \<and>
   count_of (x, v) (unique_visitors_web start end db) =
     card ({event.visitor_id e | e exp. e \<in> set (events db) \<and> exp \<in> set (experiments e) \<and>
              start \<le> event.timestamp e \<and> event.timestamp e \<le> end \<and>
              exp.experiment_id exp = x \<and> exp.variation_id exp = v} \<union>
           {decision.visitor_id d | d. d \<in> set (decisions db) \<and>
              start \<le> decision.timestamp d \<and> decision.timestamp d \<le> end \<and> \<not> is_holdback d \<and>
              decision.experiment_id d = x \<and> decision.variation_id d = v}) \<and>
   count_of (x, v) (unique_visitors_fs start end db) =
     card {decision.visitor_id d | d. d \<in> set (decisions db) \<and>
              start \<le> decision.timestamp d \<and> decision.timestamp d \<le> end \<and> \<not> is_holdback d \<and>
              decision.experiment_id d = x \<and> decision.variation_id d = v}"
proof -
  let ?E = "{event.visitor_id e | e exp. e \<in> set (events db) \<and> exp \<in> set (experiments e) \<and>
              start \<le> event.timestamp e \<and> event.timestamp e \<le> end \<and>
              exp.experiment_id exp = x \<and> exp.variation_id exp = v}"
  let ?D = "{decision.visitor_id d | d. d \<in> set (decisions db) \<and>
              start \<le> decision.timestamp d \<and> decision.timestamp d \<le> end \<and> \<not> is_holdback d \<and>
              decision.experiment_id d = x \<and> decision.variation_id d = v}"
  have fs: "count_of (x, v) (unique_visitors_fs start end db) = card ?D"
    unfolding unique_visitors_fs_def count_of_count_distinct
    by (rule arg_cong [where f = card]) (auto simp: between_def)
  have "(\<lambda>(x, v, s). s) ` {r \<in> set (sql_union (web_event_triples start end db) (decision_triples start end db)).
           (case r of (x, v, s) \<Rightarrow> (x, v)) = (x, v)} = ?E \<union> ?D"
    unfolding sql_union_def set_remdups set_append set_web_event_triples set_decision_triples
    by (auto simp: image_iff) force+
  then have web: "count_of (x, v) (unique_visitors_web start end db) = card (?E \<union> ?D)"
    unfolding unique_visitors_web_def count_of_order_by count_of_count_distinct by simp
  have "finite ?E"
  proof (rule finite_subset)
    show "?E \<subseteq> event.visitor_id ` set (events db)" by auto
  qed simp
  moreover have "finite ?D"
  proof (rule finite_subset)
    show "?D \<subseteq> decision.visitor_id ` set (decisions db)" by auto
  qed simp
  ultimately have "card ?D \<le> card (?E \<union> ?D)"
    by (intro card_mono) auto
  then show ?thesis using fs web by simp
qed

section \<open>Conversion counts, Full Stack\<close>

lemma length_filter_inner_join:
  "length [j \<leftarrow> inner_join on xs ys. P j] =
     sum_list (map (\<lambda>x. length [y \<leftarrow> ys. on x y \<and> P (x, y)]) xs)"
  by (induction xs) (auto simp: inner_join_def filter_map comp_def)

lemma keyed_row_count:
  assumes "distinct (map fst g)"
  shows "length [r \<leftarrow> g. fst r = k \<and> R (snd r)] =
     (case map_of g k of None \<Rightarrow> 0 | Some m \<Rightarrow> if R m then 1 else 0)"
  using assms
proof (induction g)
  case Nil
  then show ?case by simp
next
  case (Cons a g)
  then have notin: "fst a \<notin> fst ` set g" and dist: "distinct (map fst g)" by auto
  show ?case
  proof (cases "fst a = k")
    case True
    then have "map_of g k = None" using notin by (simp add: map_of_eq_None_iff)
    then have "length [r \<leftarrow> g. fst r = k \<and> R (snd r)] = 0"
      using Cons.IH [OF dist] by simp
    then show ?thesis using True by (cases a) auto
  next
    case False
    then show ?thesis using Cons.IH [OF dist] by (cases a) auto
  qed
qed

lemma sql_min_Min:
  assumes "rows \<noteq> []"
  shows "sql_min f rows = Some (Min (f ` set rows))"
proof -
  obtain r rs where rows: "rows = r # rs" using assms by (cases rows) auto
  have "Min (set (f r # map f rs)) = fold min (map f rs) (f r)"
    by (rule Min.set_eq_fold)
  then show ?thesis by (simp add: sql_min_def rows)
qed

lemma map_of_decision_groups:
  "map_of (decision_groups start end db) (x, v, s) =
     (if {d \<in> set (decisions db). start \<le> decision.timestamp d \<and> decision.timestamp d \<le> end \<and>
            \<not> is_holdback d \<and> decision.experiment_id d = x \<and> decision.variation_id d = v \<and>
            decision.visitor_id d = s} = {}
      then None
      else Some (Some (Min (decision.timestamp `
          {d \<in> set (decisions db). start \<le> decision.timestamp d \<and> decision.timestamp d \<le> end \<and>
            \<not> is_holdback d \<and> decision.experiment_id d = x \<and> decision.variation_id d = v \<and>
            decision.visitor_id d = s}))))"
proof -
  let ?Q = "[d \<leftarrow> decisions db. between (decision.timestamp d) start end \<and> is_holdback d = False]"
  let ?key = "\<lambda>d. (decision.experiment_id d, decision.variation_id d, decision.visitor_id d)"
  let ?D = "{d \<in> set (decisions db). start \<le> decision.timestamp d \<and> decision.timestamp d \<le> end \<and>
            \<not> is_holdback d \<and> decision.experiment_id d = x \<and> decision.variation_id d = v \<and>
            decision.visitor_id d = s}"
  have group: "set [r \<leftarrow> ?Q. ?key r = (x, v, s)] = ?D"
    by (auto simp: between_def)
  have present: "(x, v, s) \<in> ?key ` set ?Q \<longleftrightarrow> ?D \<noteq> {}"
    by (auto simp: between_def image_iff)
  show ?thesis
  proof (cases "?D = {}")
    case True
    then show ?thesis
      unfolding decision_groups_def map_of_group_by using present by simp
  next
    case False
    have "set [r \<leftarrow> ?Q. ?key r = (x, v, s)] \<noteq> {}"
      unfolding group by (rule False)
    then have ne: "[r \<leftarrow> ?Q. ?key r = (x, v, s)] \<noteq> []"
      by (simp only: set_empty not_False_eq_True)
    have "sql_min decision.timestamp [r \<leftarrow> ?Q. ?key r = (x, v, s)] = Some (Min (decision.timestamp ` ?D))"
      using sql_min_Min [OF ne, of decision.timestamp] by (simp only: group)
    then show ?thesis
      unfolding decision_groups_def map_of_group_by using present False by simp
  qed
qed

lemma conversion_count_fs_events:
  "count_of (x, v, n) (conversion_count_fs start end db) =
     length [e \<leftarrow> events db.
       event_name e = n \<and> start \<le> event.timestamp e \<and> event.timestamp e \<le> end \<and>
       {d \<in> set (decisions db). start \<le> decision.timestamp d \<and> decision.timestamp d \<le> end \<and>
            \<not> is_holdback d \<and> decision.experiment_id d = x \<and> decision.variation_id d = v \<and>
            decision.visitor_id d = event.visitor_id e} \<noteq> {} \<and>
       Min (decision.timestamp `
          {d \<in> set (decisions db). start \<le> decision.timestamp d \<and> decision.timestamp d \<le> end \<and>
            \<not> is_holdback d \<and> decision.experiment_id d = x \<and> decision.variation_id d = v \<and>
            decision.visitor_id d = event.visitor_id e}) \<le> event.timestamp e]"
proof -
  let ?G = "decision_groups start end db"
  let ?D = "\<lambda>s. {d \<in> set (decisions db). start \<le> decision.timestamp d \<and> decision.timestamp d \<le> end \<and>
            \<not> is_holdback d \<and> decision.experiment_id d = x \<and> decision.variation_id d = v \<and>
            decision.visitor_id d = s}"
  let ?C = "\<lambda>e. event_name e = n \<and> start \<le> event.timestamp e \<and> event.timestamp e \<le> end \<and>
       ?D (event.visitor_id e) \<noteq> {} \<and> Min (decision.timestamp ` ?D (event.visitor_id e)) \<le> event.timestamp e"
  have per_event: "length [g \<leftarrow> ?G. event.visitor_id e = snd (snd (fst g)) \<and>
            (between (event.timestamp e) start end \<and> ge_nullable (event.timestamp e) (snd g)) \<and>
            (fst (fst g), fst (snd (fst g)), event_name e) = (x, v, n)] = (if ?C e then 1 else 0)" for e
  proof -
    have eq: "[g \<leftarrow> ?G. event.visitor_id e = snd (snd (fst g)) \<and>
            (between (event.timestamp e) start end \<and> ge_nullable (event.timestamp e) (snd g)) \<and>
            (fst (fst g), fst (snd (fst g)), event_name e) = (x, v, n)] =
          [g \<leftarrow> ?G. fst g = (x, v, event.visitor_id e) \<and>
            (event_name e = n \<and> between (event.timestamp e) start end \<and> ge_nullable (event.timestamp e) (snd g))]"
      by (rule filter_cong) (auto simp: prod_eq_iff)
    have dist: "distinct (map fst ?G)"
      unfolding decision_groups_def by (rule distinct_keys_group_by)
    have len: "length [g \<leftarrow> ?G. fst g = (x, v, event.visitor_id e) \<and>
            (event_name e = n \<and> between (event.timestamp e) start end \<and> ge_nullable (event.timestamp e) (snd g))] =
        (case map_of ?G (x, v, event.visitor_id e) of None \<Rightarrow> 0
         | Some m \<Rightarrow> if event_name e = n \<and> between (event.timestamp e) start end \<and>
                       ge_nullable (event.timestamp e) m then 1 else 0)"
      by (rule keyed_row_count [OF dist, where k = "(x, v, event.visitor_id e)" and
            R = "\<lambda>m. event_name e = n \<and> between (event.timestamp e) start end \<and> ge_nullable (event.timestamp e) m"])
    show ?thesis
    proof (cases "?D (event.visitor_id e) = {}")
      case True
      then have "map_of ?G (x, v, event.visitor_id e) = None"
        by (simp only: map_of_decision_groups simp_thms if_True)
      then show ?thesis unfolding eq len using True by simp
    next
      case False
      then have "map_of ?G (x, v, event.visitor_id e) =
          Some (Some (Min (decision.timestamp ` ?D (event.visitor_id e))))"
        by (simp only: map_of_decision_groups simp_thms if_False)
      then show ?thesis unfolding eq len using False by (simp add: between_def)
    qed
  qed
  have "count_of (x, v, n) (conversion_count_fs start end db) =
      length [r \<leftarrow> attributed_events start end db. (case r of (x, v, n, s) \<Rightarrow> (x, v, n)) = (x, v, n)]"
    by (simp add: conversion_count_fs_def count_of_order_by count_of_count_rows)
  also have "\<dots> = length [j \<leftarrow> inner_join (\<lambda>e d. event.visitor_id e = snd (snd (fst d))) (events db) ?G.
        (between (event.timestamp (fst j)) start end \<and> ge_nullable (event.timestamp (fst j)) (snd (snd j))) \<and>
        (fst (fst (snd j)), fst (snd (fst (snd j))), event_name (fst j)) = (x, v, n)]"
    by (simp add: attributed_events_def filter_map comp_def case_prod_beta)
  also have "\<dots> = sum_list (map (\<lambda>e. if ?C e then 1 else 0) (events db))"
    unfolding length_filter_inner_join by (simp only: fst_conv snd_conv per_event)
  also have "\<dots> = length [e \<leftarrow> events db. ?C e]"
    by (rule sum_list_indicator)
  finally show ?thesis .
qed


lemma attributed_event_origin:
  assumes "(x, v, n, s) \<in> set (attributed_events start end db)"
  shows "\<exists>e \<in> set (events db). event_name e = n \<and> event.visitor_id e = s \<and>
       start \<le> event.timestamp e \<and> event.timestamp e \<le> end \<and>
       {d \<in> set (decisions db). start \<le> decision.timestamp d \<and> decision.timestamp d \<le> end \<and>
            \<not> is_holdback d \<and> decision.experiment_id d = x \<and> decision.variation_id d = v \<and>
            decision.visitor_id d = s} \<noteq> {} \<and>
       Min (decision.timestamp `
          {d \<in> set (decisions db). start \<le> decision.timestamp d \<and> decision.timestamp d \<le> end \<and>
            \<not> is_holdback d \<and> decision.experiment_id d = x \<and> decision.variation_id d = v \<and>
            decision.visitor_id d = s}) \<le> event.timestamp e"
proof -
  let ?G = "decision_groups start end db"
  from assms obtain e g where eg: "e \<in> set (events db)" "g \<in> set ?G"
      "event.visitor_id e = snd (snd (fst g))" "between (event.timestamp e) start end"
      "ge_nullable (event.timestamp e) (snd g)"
      "(x, v, n, s) = (fst (fst g), fst (snd (fst g)), event_name e, event.visitor_id e)"
    by (auto simp: attributed_events_def inner_join_def)
  have key: "fst g = (x, v, s)" using eg(3,6) by (simp add: prod_eq_iff)
  have "distinct (map fst ?G)"
    unfolding decision_groups_def by (rule distinct_keys_group_by)
  then have "map_of ?G (fst g) = Some (snd g)"
    using eg(2) by (metis map_of_is_SomeI prod.collapse)
  then have look: "map_of ?G (x, v, s) = Some (snd g)" using key by simp
  show ?thesis
  proof (cases "{d \<in> set (decisions db). start \<le> decision.timestamp d \<and> decision.timestamp d \<le> end \<and>
            \<not> is_holdback d \<and> decision.experiment_id d = x \<and> decision.variation_id d = v \<and>
            decision.visitor_id d = s} = {}")
    case True
    then have "map_of ?G (x, v, s) = None"
      by (simp only: map_of_decision_groups simp_thms if_True)
    then show ?thesis using look by simp
  next
    case False
    then have "map_of ?G (x, v, s) = Some (Some (Min (decision.timestamp `
          {d \<in> set (decisions db). start \<le> decision.timestamp d \<and> decision.timestamp d \<le> end \<and>
            \<not> is_holdback d \<and> decision.experiment_id d = x \<and> decision.variation_id d = v \<and>
            decision.visitor_id d = s})))"
      by (simp only: map_of_decision_groups simp_thms if_False)
    then have "snd g = Some (Min (decision.timestamp `
          {d \<in> set (decisions db). start \<le> decision.timestamp d \<and> decision.timestamp d \<le> end \<and>
            \<not> is_holdback d \<and> decision.experiment_id d = x \<and> decision.variation_id d = v \<and>
            decision.visitor_id d = s}))"
      using look by simp
    then have "Min (decision.timestamp `
          {d \<in> set (decisions db). start \<le> decision.timestamp d \<and> decision.timestamp d \<le> end \<and>
            \<not> is_holdback d \<and> decision.experiment_id d = x \<and> decision.variation_id d = v \<and>
            decision.visitor_id d = s}) \<le> event.timestamp e"
      using eg(5) by simp
    moreover have "event_name e = n" "event.visitor_id e = s" using eg(6) by simp_all
    moreover have "start \<le> event.timestamp e \<and> event.timestamp e \<le> end"
      using eg(4) by (simp add: between_def)
    ultimately show ?thesis using eg(1) False by blast
  qed
qed

lemma attributed_events_per_event:
  "attributed_events start end db =
     concat (map (\<lambda>e. map (\<lambda>g. (fst (fst g), fst (snd (fst g)), event_name e, event.visitor_id e))
        [g \<leftarrow> decision_groups start end db. event.visitor_id e = snd (snd (fst g)) \<and>
           between (event.timestamp e) start end \<and> ge_nullable (event.timestamp e) (snd g)]) (events db))"
proof -
  have "map (\<lambda>(e, d). (fst (fst d), fst (snd (fst d)), event_name e, event.visitor_id e))
       [j \<leftarrow> inner_join (\<lambda>e d. event.visitor_id e = snd (snd (fst d))) es g.
          between (event.timestamp (fst j)) start end \<and> ge_nullable (event.timestamp (fst j)) (snd (snd j))] =
     concat (map (\<lambda>e. map (\<lambda>g. (fst (fst g), fst (snd (fst g)), event_name e, event.visitor_id e))
        [g \<leftarrow> g. event.visitor_id e = snd (snd (fst g)) \<and>
           between (event.timestamp e) start end \<and> ge_nullable (event.timestamp e) (snd g)]) es)" for es g
    by (induction es) (auto simp: inner_join_def filter_map comp_def)
  then show ?thesis by (simp only: attributed_events_def)
qed

lemma attributed_events_enrichment:
  assumes "decisions db' = decisions db"
    and "map (\<lambda>e. e\<lparr>experiments := []\<rparr>) (events db') = map (\<lambda>e. e\<lparr>experiments := []\<rparr>) (events db)"
  shows "attributed_events start end db' = attributed_events start end db"
proof -
  let ?h = "\<lambda>e. map (\<lambda>g. (fst (fst g), fst (snd (fst g)), event_name e, event.visitor_id e))
        [g \<leftarrow> decision_groups start end db. event.visitor_id e = snd (snd (fst g)) \<and>
           between (event.timestamp e) start end \<and> ge_nullable (event.timestamp e) (snd g)]"
  have groups: "decision_groups start end db' = decision_groups start end db"
    using assms(1) by (simp add: decision_groups_def)
  have strip: "map ?h es = map ?h (map (\<lambda>e. e\<lparr>experiments := []\<rparr>) es)" for es
    by (simp add: comp_def)
  have "map ?h (events db') = map ?h (map (\<lambda>e. e\<lparr>experiments := []\<rparr>) (events db'))"
    by (rule strip)
  also have "\<dots> = map ?h (map (\<lambda>e. e\<lparr>experiments := []\<rparr>) (events db))"
    by (simp only: assms(2))
  also have "\<dots> = map ?h (events db)"
    by (rule strip [symmetric])
  finally have "concat (map ?h (events db')) = concat (map ?h (events db))"
    by (rule arg_cong [where f = concat])
  then show ?thesis
    by (simp only: attributed_events_per_event groups)
qed



text \<open>
  C2. Under the Full Stack query, for every input, the count of \<open>(x, v, n)\<close> is the
  number of events named \<open>n\<close> whose timestamp is in \<open>[start, end]\<close>, whose visitor has a
  decision for \<open>(x, v)\<close> in \<open>[start, end]\<close> outside holdback, and whose timestamp is at
  least the earliest such decision's. Every joined row that is counted comes from an
  event and a decision of that kind, the decision being the earliest. So a visitor with
  no decision in the window outside holdback contributes nothing: the counts over that
  visitor's events alone are 0, and dropping those events changes no count.
\<close>

theorem conversion_count_fs_after_first_decision:
  "count_of (x, v, n) (conversion_count_fs start end db) =
     length [e \<leftarrow> events db.
       event_name e = n \<and> start \<le> event.timestamp e \<and> event.timestamp e \<le> end \<and>
       {d \<in> set (decisions db). start \<le> decision.timestamp d \<and> decision.timestamp d \<le> end \<and>
            \<not> is_holdback d \<and> decision.experiment_id d = x \<and> decision.variation_id d = v \<and>
            decision.visitor_id d = event.visitor_id e} \<noteq> {} \<and>
       Min (decision.timestamp `
          {d \<in> set (decisions db). start \<le> decision.timestamp d \<and> decision.timestamp d \<le> end \<and>
            \<not> is_holdback d \<and> decision.experiment_id d = x \<and> decision.variation_id d = v \<and>
            decision.visitor_id d = event.visitor_id e}) \<le> event.timestamp e] \<and>
   (\<forall>r \<in> set (attributed_events start end db).
      \<exists>e \<in> set (events db). \<exists>d \<in> set (decisions db).
        event_name e = fst (snd (snd r)) \<and> event.visitor_id e = snd (snd (snd r)) \<and>
        decision.visitor_id d = event.visitor_id e \<and>
        decision.experiment_id d = fst r \<and> decision.variation_id d = fst (snd r) \<and>
        start \<le> decision.timestamp d \<and> decision.timestamp d \<le> end \<and> \<not> is_holdback d \<and>
        start \<le> event.timestamp e \<and> event.timestamp e \<le> end \<and>
        decision.timestamp d \<le> event.timestamp e \<and>
        decision.timestamp d = Min (decision.timestamp `
          {d' \<in> set (decisions db). start \<le> decision.timestamp d' \<and> decision.timestamp d' \<le> end \<and>
            \<not> is_holdback d' \<and> decision.experiment_id d' = fst r \<and> decision.variation_id d' = fst (snd r) \<and>
            decision.visitor_id d' = event.visitor_id e})) \<and>
   ((\<forall>d \<in> set (decisions db). decision.visitor_id d = s \<longrightarrow>
        \<not> (start \<le> decision.timestamp d \<and> decision.timestamp d \<le> end \<and> \<not> is_holdback d)) \<longrightarrow>
    count_of (x, v, n) (conversion_count_fs start end (db\<lparr>events := [e \<leftarrow> events db. event.visitor_id e = s]\<rparr>)) = 0 \<and>
    count_of (x, v, n) (conversion_count_fs start end (db\<lparr>events := [e \<leftarrow> events db. event.visitor_id e \<noteq> s]\<rparr>)) =
      count_of (x, v, n) (conversion_count_fs start end db))"
proof (intro conjI ballI impI)
  show "count_of (x, v, n) (conversion_count_fs start end db) =
     length [e \<leftarrow> events db.
       event_name e = n \<and> start \<le> event.timestamp e \<and> event.timestamp e \<le> end \<and>
       {d \<in> set (decisions db). start \<le> decision.timestamp d \<and> decision.timestamp d \<le> end \<and>
            \<not> is_holdback d \<and> decision.experiment_id d = x \<and> decision.variation_id d = v \<and>
            decision.visitor_id d = event.visitor_id e} \<noteq> {} \<and>
       Min (decision.timestamp `
          {d \<in> set (decisions db). start \<le> decision.timestamp d \<and> decision.timestamp d \<le> end \<and>
            \<not> is_holdback d \<and> decision.experiment_id d = x \<and> decision.variation_id d = v \<and>
            decision.visitor_id d = event.visitor_id e}) \<le> event.timestamp e]"
    by (rule conversion_count_fs_events)
next
  fix r assume r: "r \<in> set (attributed_events start end db)"
  obtain x' v' n' s' where r': "r = (x', v', n', s')" by (cases r) auto
  let ?D = "{d' \<in> set (decisions db). start \<le> decision.timestamp d' \<and> decision.timestamp d' \<le> end \<and>
            \<not> is_holdback d' \<and> decision.experiment_id d' = x' \<and> decision.variation_id d' = v' \<and>
            decision.visitor_id d' = s'}"
  from attributed_event_origin [OF r [unfolded r']] obtain e where
    e: "e \<in> set (events db)" "event_name e = n'" "event.visitor_id e = s'"
       "start \<le> event.timestamp e" "event.timestamp e \<le> end" "?D \<noteq> {}"
       "Min (decision.timestamp ` ?D) \<le> event.timestamp e"
    by blast
  have "finite (decision.timestamp ` ?D)" by simp
  moreover have "decision.timestamp ` ?D \<noteq> {}" using e(6) by simp
  ultimately have "Min (decision.timestamp ` ?D) \<in> decision.timestamp ` ?D" by (rule Min_in)
  then obtain d where d: "d \<in> ?D" "decision.timestamp d = Min (decision.timestamp ` ?D)"
    by (metis (no_types, lifting) image_iff)
  show "\<exists>e \<in> set (events db). \<exists>d \<in> set (decisions db).
        event_name e = fst (snd (snd r)) \<and> event.visitor_id e = snd (snd (snd r)) \<and>
        decision.visitor_id d = event.visitor_id e \<and>
        decision.experiment_id d = fst r \<and> decision.variation_id d = fst (snd r) \<and>
        start \<le> decision.timestamp d \<and> decision.timestamp d \<le> end \<and> \<not> is_holdback d \<and>
        start \<le> event.timestamp e \<and> event.timestamp e \<le> end \<and>
        decision.timestamp d \<le> event.timestamp e \<and>
        decision.timestamp d = Min (decision.timestamp `
          {d' \<in> set (decisions db). start \<le> decision.timestamp d' \<and> decision.timestamp d' \<le> end \<and>
            \<not> is_holdback d' \<and> decision.experiment_id d' = fst r \<and> decision.variation_id d' = fst (snd r) \<and>
            decision.visitor_id d' = event.visitor_id e})"
  proof (intro bexI [of _ e] bexI [of _ d] conjI)
    show "e \<in> set (events db)" by (rule e(1))
    show "d \<in> set (decisions db)" using d(1) by simp
  qed (use e d r' in simp_all)
next
  assume none: "\<forall>d \<in> set (decisions db). decision.visitor_id d = s \<longrightarrow>
        \<not> (start \<le> decision.timestamp d \<and> decision.timestamp d \<le> end \<and> \<not> is_holdback d)"
  have unexposed: "{d \<in> set (decisions db). start \<le> decision.timestamp d \<and> decision.timestamp d \<le> end \<and>
            \<not> is_holdback d \<and> decision.experiment_id d = x \<and> decision.variation_id d = v \<and>
            decision.visitor_id d = event.visitor_id e} = {}" if "event.visitor_id e = s" for e
    using none that by auto
  have sel: "events (db\<lparr>events := es\<rparr>) = es" "decisions (db\<lparr>events := es\<rparr>) = decisions db" for es
    by simp_all
  have "[e \<leftarrow> [e \<leftarrow> events db. event.visitor_id e = s].
       event_name e = n \<and> start \<le> event.timestamp e \<and> event.timestamp e \<le> end \<and>
       {d \<in> set (decisions db). start \<le> decision.timestamp d \<and> decision.timestamp d \<le> end \<and>
            \<not> is_holdback d \<and> decision.experiment_id d = x \<and> decision.variation_id d = v \<and>
            decision.visitor_id d = event.visitor_id e} \<noteq> {} \<and>
       Min (decision.timestamp ` {d \<in> set (decisions db). start \<le> decision.timestamp d \<and> decision.timestamp d \<le> end \<and>
            \<not> is_holdback d \<and> decision.experiment_id d = x \<and> decision.variation_id d = v \<and>
            decision.visitor_id d = event.visitor_id e}) \<le> event.timestamp e] = []"
    unfolding filter_empty_conv
  proof (intro ballI notI)
    fix e assume "e \<in> set [e \<leftarrow> events db. event.visitor_id e = s]"
      and c: "event_name e = n \<and> start \<le> event.timestamp e \<and> event.timestamp e \<le> end \<and>
       {d \<in> set (decisions db). start \<le> decision.timestamp d \<and> decision.timestamp d \<le> end \<and>
            \<not> is_holdback d \<and> decision.experiment_id d = x \<and> decision.variation_id d = v \<and>
            decision.visitor_id d = event.visitor_id e} \<noteq> {} \<and>
       Min (decision.timestamp ` {d \<in> set (decisions db). start \<le> decision.timestamp d \<and> decision.timestamp d \<le> end \<and>
            \<not> is_holdback d \<and> decision.experiment_id d = x \<and> decision.variation_id d = v \<and>
            decision.visitor_id d = event.visitor_id e}) \<le> event.timestamp e"
    then have "event.visitor_id e = s" by simp
    then have "{d \<in> set (decisions db). start \<le> decision.timestamp d \<and> decision.timestamp d \<le> end \<and>
            \<not> is_holdback d \<and> decision.experiment_id d = x \<and> decision.variation_id d = v \<and>
            decision.visitor_id d = event.visitor_id e} = {}" by (rule unexposed)
    then show False using c by blast
  qed
  then show "count_of (x, v, n) (conversion_count_fs start end (db\<lparr>events := [e \<leftarrow> events db. event.visitor_id e = s]\<rparr>)) = 0"
    unfolding conversion_count_fs_events sel by simp
  have "[e \<leftarrow> [e \<leftarrow> events db. event.visitor_id e \<noteq> s].
       event_name e = n \<and> start \<le> event.timestamp e \<and> event.timestamp e \<le> end \<and>
       {d \<in> set (decisions db). start \<le> decision.timestamp d \<and> decision.timestamp d \<le> end \<and>
            \<not> is_holdback d \<and> decision.experiment_id d = x \<and> decision.variation_id d = v \<and>
            decision.visitor_id d = event.visitor_id e} \<noteq> {} \<and>
       Min (decision.timestamp ` {d \<in> set (decisions db). start \<le> decision.timestamp d \<and> decision.timestamp d \<le> end \<and>
            \<not> is_holdback d \<and> decision.experiment_id d = x \<and> decision.variation_id d = v \<and>
            decision.visitor_id d = event.visitor_id e}) \<le> event.timestamp e] =
     [e \<leftarrow> events db.
       event_name e = n \<and> start \<le> event.timestamp e \<and> event.timestamp e \<le> end \<and>
       {d \<in> set (decisions db). start \<le> decision.timestamp d \<and> decision.timestamp d \<le> end \<and>
            \<not> is_holdback d \<and> decision.experiment_id d = x \<and> decision.variation_id d = v \<and>
            decision.visitor_id d = event.visitor_id e} \<noteq> {} \<and>
       Min (decision.timestamp ` {d \<in> set (decisions db). start \<le> decision.timestamp d \<and> decision.timestamp d \<le> end \<and>
            \<not> is_holdback d \<and> decision.experiment_id d = x \<and> decision.variation_id d = v \<and>
            decision.visitor_id d = event.visitor_id e}) \<le> event.timestamp e]"
    unfolding filter_filter by (rule filter_cong) (use unexposed in blast)+
  then show "count_of (x, v, n) (conversion_count_fs start end (db\<lparr>events := [e \<leftarrow> events db. event.visitor_id e \<noteq> s]\<rparr>)) =
      count_of (x, v, n) (conversion_count_fs start end db)"
    unfolding conversion_count_fs_events sel by (rule arg_cong)
qed


theorem conversion_count_fs_after_first_decision_witness:
  "count_of (''e1'', ''vA'', ''purchase'') (conversion_count_fs 0 100 unexposed) = 0 \<and>
   count_of (''e1'', ''vA'', ''purchase'') (conversion_count_fs 0 100 (scenario 12)) = 1"
proof -
  note unexp = conversion_count_fs_after_first_decision
    [of "''e1''" "''vA''" "''purchase''" 0 100 unexposed "''s1''", THEN conjunct2, THEN conjunct2, THEN mp, THEN conjunct1]
  have "\<forall>d \<in> set (decisions unexposed). decision.visitor_id d = ''s1'' \<longrightarrow>
        \<not> (0 \<le> decision.timestamp d \<and> decision.timestamp d \<le> 100 \<and> \<not> is_holdback d)"
    by (simp add: unexposed_def decision_at_def)
  then have "count_of (''e1'', ''vA'', ''purchase'')
      (conversion_count_fs 0 100 (unexposed\<lparr>events := [e \<leftarrow> events unexposed. event.visitor_id e = ''s1'']\<rparr>)) = 0"
    by (rule unexp)
  moreover have "unexposed\<lparr>events := [e \<leftarrow> events unexposed. event.visitor_id e = ''s1'']\<rparr> = unexposed"
    by (simp add: unexposed_def purchase_at_def)
  ultimately have zero: "count_of (''e1'', ''vA'', ''purchase'') (conversion_count_fs 0 100 unexposed) = 0"
    by simp
  note exposed = conversion_count_fs_after_first_decision
    [of "''e1''" "''vA''" "''purchase''" 0 100 "scenario 12" "''s1''", THEN conjunct1]
  have tables: "events (scenario 12) = [purchase_at 12 [e1_vA]]" "decisions (scenario 12) = scenario_decisions"
    by (simp_all add: scenario_def)
  have first: "{d \<in> set scenario_decisions. 0 \<le> decision.timestamp d \<and> decision.timestamp d \<le> 100 \<and>
            \<not> is_holdback d \<and> decision.experiment_id d = ''e1'' \<and> decision.variation_id d = ''vA'' \<and>
            decision.visitor_id d = event.visitor_id (purchase_at 12 [e1_vA])} =
       {decision_at ''s1'' ''e1'' ''vA'' 10 False}"
    by (auto simp: scenario_decisions_def decision_at_def purchase_at_def)
  have one: "count_of (''e1'', ''vA'', ''purchase'') (conversion_count_fs 0 100 (scenario 12)) = 1"
    unfolding exposed tables filter.simps first
    by (simp add: purchase_at_def decision_at_def)
  show ?thesis using zero one by blast
qed



text \<open>
  C8. The Full Stack queries never read the \<open>experiments\<close> array: two databases with
  the same decisions whose events differ only in that array have the same Full Stack
  conversion counts and unique-visitor counts. The join is on the visitor alone, so an
  event in the window is credited to every experiment and variation for which its
  visitor has a decision in the window, outside holdback, no later than the event.
\<close>

theorem full_stack_ignores_enrichment:
  "(decisions db' = decisions db \<and>
    map (\<lambda>e. e\<lparr>experiments := []\<rparr>) (events db') = map (\<lambda>e. e\<lparr>experiments := []\<rparr>) (events db) \<longrightarrow>
      conversion_count_fs start end db' = conversion_count_fs start end db \<and>
      unique_visitors_fs start end db' = unique_visitors_fs start end db) \<and>
   (\<forall>e \<in> set (events db). \<forall>d \<in> set (decisions db).
      decision.visitor_id d = event.visitor_id e \<and>
      start \<le> decision.timestamp d \<and> decision.timestamp d \<le> end \<and> \<not> is_holdback d \<and>
      decision.timestamp d \<le> event.timestamp e \<and> event.timestamp e \<le> end \<longrightarrow>
      1 \<le> count_of (decision.experiment_id d, decision.variation_id d, event_name e)
             (conversion_count_fs start end db))"
proof (intro conjI ballI impI)
  assume same: "decisions db' = decisions db \<and>
    map (\<lambda>e. e\<lparr>experiments := []\<rparr>) (events db') = map (\<lambda>e. e\<lparr>experiments := []\<rparr>) (events db)"
  then have "attributed_events start end db' = attributed_events start end db"
    by (intro attributed_events_enrichment) simp_all
  then show "conversion_count_fs start end db' = conversion_count_fs start end db"
    by (simp only: conversion_count_fs_def)
  show "unique_visitors_fs start end db' = unique_visitors_fs start end db"
    using same by (simp add: unique_visitors_fs_def)
next
  fix e d
  assume e: "e \<in> set (events db)" and d: "d \<in> set (decisions db)"
    and q: "decision.visitor_id d = event.visitor_id e \<and>
      start \<le> decision.timestamp d \<and> decision.timestamp d \<le> end \<and> \<not> is_holdback d \<and>
      decision.timestamp d \<le> event.timestamp e \<and> event.timestamp e \<le> end"
  let ?D = "{d' \<in> set (decisions db). start \<le> decision.timestamp d' \<and> decision.timestamp d' \<le> end \<and>
            \<not> is_holdback d' \<and> decision.experiment_id d' = decision.experiment_id d \<and>
            decision.variation_id d' = decision.variation_id d \<and>
            decision.visitor_id d' = event.visitor_id e}"
  have mem: "d \<in> ?D" using d q by simp
  then have ne: "?D \<noteq> {}" by blast
  have "Min (decision.timestamp ` ?D) \<le> decision.timestamp d"
    using mem by (intro Min_le) auto
  then have credited: "event_name e = event_name e \<and> start \<le> event.timestamp e \<and> event.timestamp e \<le> end \<and>
       ?D \<noteq> {} \<and> Min (decision.timestamp ` ?D) \<le> event.timestamp e"
    using q ne by auto
  have "e \<in> set [e' \<leftarrow> events db.
       event_name e' = event_name e \<and> start \<le> event.timestamp e' \<and> event.timestamp e' \<le> end \<and>
       {d' \<in> set (decisions db). start \<le> decision.timestamp d' \<and> decision.timestamp d' \<le> end \<and>
            \<not> is_holdback d' \<and> decision.experiment_id d' = decision.experiment_id d \<and>
            decision.variation_id d' = decision.variation_id d \<and>
            decision.visitor_id d' = event.visitor_id e'} \<noteq> {} \<and>
       Min (decision.timestamp `
          {d' \<in> set (decisions db). start \<le> decision.timestamp d' \<and> decision.timestamp d' \<le> end \<and>
            \<not> is_holdback d' \<and> decision.experiment_id d' = decision.experiment_id d \<and>
            decision.variation_id d' = decision.variation_id d \<and>
            decision.visitor_id d' = event.visitor_id e'}) \<le> event.timestamp e']"
    unfolding set_filter using e credited by blast
  then have "0 < count_of (decision.experiment_id d, decision.variation_id d, event_name e)
             (conversion_count_fs start end db)"
    unfolding conversion_count_fs_events by (rule length_pos_if_in_set)
  then show "1 \<le> count_of (decision.experiment_id d, decision.variation_id d, event_name e)
             (conversion_count_fs start end db)"
    by linarith
qed

theorem full_stack_ignores_enrichment_witness:
  "conversion_count_fs 0 100 unenriched = conversion_count_fs 0 100 (scenario 12) \<and>
   unique_visitors_fs 0 100 unenriched = unique_visitors_fs 0 100 (scenario 12) \<and>
   1 \<le> count_of (''e1'', ''vA'', ''purchase'') (conversion_count_fs 0 100 unenriched)"
proof -
  note same = full_stack_ignores_enrichment
    [of unenriched "scenario 12" 0 100, THEN conjunct1, THEN mp]
  have "decisions unenriched = decisions (scenario 12) \<and>
    map (\<lambda>e. e\<lparr>experiments := []\<rparr>) (events unenriched) =
    map (\<lambda>e. e\<lparr>experiments := []\<rparr>) (events (scenario 12))"
    by (simp add: unenriched_def scenario_def purchase_at_def)
  then have eq: "conversion_count_fs 0 100 unenriched = conversion_count_fs 0 100 (scenario 12) \<and>
      unique_visitors_fs 0 100 unenriched = unique_visitors_fs 0 100 (scenario 12)"
    by (rule same)
  note credit = full_stack_ignores_enrichment
    [of unenriched unenriched 0 100, THEN conjunct2, THEN bspec, THEN bspec, THEN mp,
     of "purchase_at 12 []" "decision_at ''s1'' ''e1'' ''vA'' 10 False"]
  have "1 \<le> count_of (decision.experiment_id (decision_at ''s1'' ''e1'' ''vA'' 10 False),
                      decision.variation_id (decision_at ''s1'' ''e1'' ''vA'' 10 False),
                      event_name (purchase_at 12 []))
             (conversion_count_fs 0 100 unenriched)"
    by (rule credit) (simp_all add: unenriched_def scenario_decisions_def decision_at_def purchase_at_def)
  then have "1 \<le> count_of (''e1'', ''vA'', ''purchase'') (conversion_count_fs 0 100 unenriched)"
    by (simp add: decision_at_def purchase_at_def)
  then show ?thesis using eq by blast
qed

section \<open>The scenarios\<close>

text \<open>
  C7. On the decisions \<open>(s1,e1,vA,10)\<close>, \<open>(s1,e1,vB,20)\<close>, \<open>(s2,e1,vA,15)\<close> with window
  \<open>[0,100]\<close> and the one event \<open>(s1, purchase, t=12, [(e1,vA)])\<close>, the Full Stack
  conversion count of \<open>(e1,vA,purchase)\<close> is 1 and that of \<open>(e1,vB,n)\<close> is 0 for every
  event name \<open>n\<close>; with the event at \<open>t=5\<close>, the Full Stack count of \<open>(e1,vA,purchase)\<close>
  is 0 and the Web count is 1.
\<close>

theorem scenario_conversion_counts:
  "count_of (''e1'', ''vA'', ''purchase'') (conversion_count_fs 0 100 (scenario 12)) = 1 \<and>
   count_of (''e1'', ''vB'', n) (conversion_count_fs 0 100 (scenario 12)) = 0 \<and>
   count_of (''e1'', ''vA'', ''purchase'') (conversion_count_fs 0 100 (scenario 5)) = 0 \<and>
   count_of (''e1'', ''vA'', ''purchase'') (conversion_count_web 0 100 (scenario 5)) = 1"
  by (simp add: conversion_count_web_def conversion_count_fs_def attributed_events_def decision_groups_def
     inner_join_def sql_min_def scenario_def scenario_decisions_def decision_at_def
      purchase_at_def e1_vA_def
     lateral_view_explode_def between_def group_by_def count_rows_def order_by_def count_of_def)



end
